theory Spec2Isabelle
  imports Main
begin

section \<open>The round-robin load balancer of nanny\<close>

text \<open>
  A shallow embedding of \<^verbatim>\<open>round-robin-load-balancer.js\<close>. The load balancer object is a
  record; every method is a function from the object to the updated object. Calls that
  leave the object (the logger, the Node.js server, the worker supervisors, the event
  emitter's listeners, timers) are appended to a trace of effects, in the order the
  source performs them. A JavaScript exception is a value \<open>Inl e\<close>.

  Conventions of the embedding:
  \<^item> worker supervisors, connections, error objects and callbacks are opaque JavaScript
    objects, compared by identity (\<^verbatim>\<open>indexOf\<close> uses \<^verbatim>\<open>===\<close>); they are natural numbers here;
  \<^item> the logger is a required member of the specification object; the payload objects of
    the log calls are not modelled, only the level and the message;
  \<^item> the methods of the collaborators (\<^verbatim>\<open>sendAddress\<close>, \<^verbatim>\<open>sendError\<close>, \<^verbatim>\<open>handleConnection\<close>
    of a worker supervisor, listeners of the emitter) return normally and do not call
    back into the load balancer before they return.
\<close>

subsection \<open>Data\<close>

type_synonym worker = nat
type_synonym connection = nat
type_synonym addr = nat
type_synonym err = nat
type_synonym callback = nat

datatype lbstate = Standby | Starting | Running | Stopping

datatype level = Debug | Info | Warn | Err

text \<open>
  The effects, as the source performs them: \<^verbatim>\<open>this.emit(state, this)\<close>;
  \<^verbatim>\<open>this.emit('stateChange', state, this)\<close>; a one-shot listener of \<^verbatim>\<open>'standby'\<close> being run;
  \<^verbatim>\<open>process.nextTick(callback)\<close>; \<^verbatim>\<open>net.createServer()\<close> with the four handlers registered on
  the new server; \<^verbatim>\<open>server.listen(port, address, backlog)\<close>; \<^verbatim>\<open>server.close()\<close>; the three
  calls on a worker supervisor, each with the port; \<^verbatim>\<open>setTimeout(handleRestartTimeout, delay)\<close>
  with the handle it returns; a call of the logger. Servers and timer handles are numbered
  in the order they are created.
\<close>

datatype effect =
    Emit lbstate
  | EmitStateChange lbstate
  | Invoke callback
  | NextTick callback
  | CreateServer nat
  | ServerListen nat nat "string option" "nat option"
  | ServerClose nat
  | SendAddress worker "nat option" "addr option"
  | SendError worker "nat option" err
  | WorkerHandleConnection worker "nat option" connection
  | SetTimeout nat nat
  | Logger level string

text \<open>
  What a handler can throw: the error object it was given (\<^verbatim>\<open>throw error\<close>), the
  \<^verbatim>\<open>Error('Assertion failed: ...')\<close> of \<^verbatim>\<open>handleClose\<close>, and the \<^verbatim>\<open>TypeError\<close> of a method call
  on \<^verbatim>\<open>this.server\<close> while it is null.
\<close>

datatype error = Thrown err | AssertionFailed | TypeError

text \<open>The members of the specification object that the constructor reads.\<close>

record spec =
  spec_port :: "nat option"
  spec_address :: "string option"
  spec_backlog :: "nat option"
  spec_restartDelay :: "nat option"

text \<open>
  The fields of the object, in the order the constructor assigns them. \<open>onceStandby\<close> is the
  emitter's list of one-shot listeners of the event \<^verbatim>\<open>'standby'\<close>;
  \<open>pendingTimers\<close> is the part of the Node.js timer queue that holds the handles armed by
  this object and not yet fired; \<open>trace\<close> is the trace of effects.
\<close>

record lb =
  port :: "nat option"
  requestedAddress :: "string option"
  requestedBacklog :: "nat option"
  address :: "addr option"
  server :: "nat option"
  restartDelay :: nat
  state :: lbstate
  nextState :: "lbstate option"
  ring :: "worker list"
  waitingWorkers :: "worker list option"
  queue :: "connection list"
  restartTimeoutHandle :: "nat option"
  onceStandby :: "callback list"
  pendingTimers :: "nat list"
  trace :: "effect list"

subsection \<open>Methods\<close>

definition perform :: "effect list \<Rightarrow> lb \<Rightarrow> lb" where
  "perform es b = b\<lparr>trace := trace b @ es\<rparr>"

text \<open>The next fresh handle after the one a field holds (servers and timers).\<close>

definition fresh :: "nat option \<Rightarrow> nat" where
  "fresh h = (case h of None \<Rightarrow> 0 | Some n \<Rightarrow> Suc n)"

text \<open>\<^verbatim>\<open>x || 0\<close> on a number that may be undefined.\<close>

definition or0 :: "nat option \<Rightarrow> nat" where
  "or0 x = (case x of None \<Rightarrow> 0 | Some n \<Rightarrow> n)"

definition inspect :: "lb \<Rightarrow> lbstate \<times> nat option \<times> addr option \<times> nat" where
  "inspect b = (state b, port b, address b, length (queue b))"

text \<open>
  \<^verbatim>\<open>goto\<close>: set the state, emit the state's own event, then \<^verbatim>\<open>'stateChange'\<close>. The one-shot
  listeners of \<^verbatim>\<open>'standby'\<close> (registered by \<^verbatim>\<open>stop\<close>) run and are removed when that event is
  emitted.
\<close>

definition goto :: "lbstate \<Rightarrow> lb \<Rightarrow> lb" where
  "goto s b =
     (if s = Standby
      then perform ([Emit s] @ map Invoke (onceStandby b) @ [EmitStateChange s])
             (b\<lparr>state := s, onceStandby := []\<rparr>)
      else perform [Emit s, EmitStateChange s] (b\<lparr>state := s\<rparr>))"

definition start :: "lb \<Rightarrow> lb" where
  "start b =
     (if state b = Standby then
        (let b1 = goto Starting b;
             sid = fresh (server b1);
             b2 = perform [CreateServer sid] (b1\<lparr>server := Some sid\<rparr>);
             b3 = perform [Logger Debug ''supervisor requesting to listen on port''] b2
         in perform [ServerListen sid (or0 (port b3)) (requestedAddress b3) (requestedBacklog b3)] b3)
      else if state b = Stopping then b\<lparr>nextState := Some Starting\<rparr>
      else b)"

definition stop :: "callback option \<Rightarrow> lb \<Rightarrow> error + lb" where
  "stop cb b =
     (let b1 = (case cb of
                  None \<Rightarrow> b
                | Some c \<Rightarrow>
                    if state b \<noteq> Standby then b\<lparr>onceStandby := onceStandby b @ [c]\<rparr>
                    else perform [NextTick c] b)
      in if state b1 = Running \<or> state b1 = Starting then
           (if state b1 = Running then
              (case server b1 of
                 None \<Rightarrow> Inl TypeError
               | Some sid \<Rightarrow> Inr (goto Stopping (perform [ServerClose sid] b1)))
            else Inr (goto Stopping b1))
         else Inr b1)"

definition handleConnection :: "connection \<Rightarrow> lb \<Rightarrow> lb" where
  "handleConnection c b =
     (if state b = Running \<and> ring b \<noteq> [] then
        (case ring b of
           w # ws \<Rightarrow> perform [WorkerHandleConnection w (port b) c] (b\<lparr>ring := ws @ [w]\<rparr>)
         | [] \<Rightarrow> b)
      else perform [Logger Info ''connection backlog''] (b\<lparr>queue := queue b @ [c]\<rparr>))"

text \<open>
  \<^verbatim>\<open>queue.forEach\<close> visits the entries the queue holds when the loop starts, in order, and
  each visit runs \<^verbatim>\<open>handleConnection\<close> on the object as the previous visit left it; then the
  queue is truncated.
\<close>

definition flushConnectionQueue :: "lb \<Rightarrow> lb" where
  "flushConnectionQueue b =
     (if state b = Running \<and> ring b \<noteq> [] then
        perform [Logger Debug ''connection backlog'']
          ((fold handleConnection (queue b) b)\<lparr>queue := []\<rparr>)
      else b)"

definition addWorkerSupervisor :: "worker \<Rightarrow> lb \<Rightarrow> lb" where
  "addWorkerSupervisor w b =
     (let b1 = perform [Logger Debug ''worker subscribed to connections'']
                 (b\<lparr>ring := ring b @ [w]\<rparr>);
          b2 = (if state b1 = Running then perform [SendAddress w (port b1) (address b1)] b1
                else b1)
      in flushConnectionQueue b2)"

text \<open>\<^verbatim>\<open>indexOf\<close> finds the first occurrence, \<^verbatim>\<open>splice(index, 1)\<close> removes that one entry.\<close>

definition removeWorkerSupervisor :: "worker \<Rightarrow> lb \<Rightarrow> lb" where
  "removeWorkerSupervisor w b = b\<lparr>ring := remove1 w (ring b)\<rparr>"

text \<open>
  \<^verbatim>\<open>handleListening\<close>; its argument is the address object that \<^verbatim>\<open>server.address()\<close> returns
  inside the handler of \<^verbatim>\<open>'listening'\<close>.
\<close>

definition handleListening :: "addr \<Rightarrow> lb \<Rightarrow> error + lb" where
  "handleListening a b =
     (if state b = Starting then
        (let b1 = goto Running b in
         case server b1 of
           None \<Rightarrow> Inl TypeError
         | Some sid \<Rightarrow>
             (let b2 = perform [Logger Debug ''supervisor received address to listen on port'']
                         (b1\<lparr>address := Some a\<rparr>);
                  b3 = perform (map (\<lambda>w. SendAddress w (port b2) (address b2)) (ring b2)) b2
              in Inr (flushConnectionQueue b3)))
      else if state b = Stopping then
        (let b1 = perform
                    [Logger Warn ''supervisor shutting down server before confirmed to be listening'']
                    b
         in case server b1 of
              None \<Rightarrow> Inl TypeError
            | Some sid \<Rightarrow> Inr (perform [ServerClose sid] b1))
      else Inr b)"

definition handleError :: "err \<Rightarrow> lb \<Rightarrow> error + lb" where
  "handleError e b =
     (let b1 = perform [Logger Err ''supervisor failed to listen''] b in
      if state b1 = Running \<or> state b1 = Stopping then
        stop None (perform (map (\<lambda>w. SendError w (port b1) e) (ring b1)) b1)
      else if state b1 = Starting then stop None b1
      else Inl (Thrown e))"

definition handleClose :: "lb \<Rightarrow> error + lb" where
  "handleClose b =
     (if state b = Stopping \<or> state b = Running then
        (let b1 = perform [Logger Info ''supervisor stopped listening on port''] (goto Standby b)
         in if nextState b1 = Some Starting then
              (let h = fresh (restartTimeoutHandle b1)
               in Inr ((perform [SetTimeout h (restartDelay b1)] b1)
                         \<lparr>restartTimeoutHandle := Some h,
                          pendingTimers := pendingTimers b1 @ [h],
                          nextState := None\<rparr>))
            else Inr b1)
      else Inl AssertionFailed)"

definition handleRestartTimeout :: "lb \<Rightarrow> lb" where
  "handleRestartTimeout b = start b"

text \<open>The constructor: the fields are initialised, then \<^verbatim>\<open>start\<close> runs.\<close>

definition RoundRobinLoadBalancer :: "spec \<Rightarrow> lb" where
  "RoundRobinLoadBalancer sp =
     start \<lparr>port = spec_port sp,
            requestedAddress = spec_address sp,
            requestedBacklog = spec_backlog sp,
            address = None,
            server = None,
            restartDelay = or0 (spec_restartDelay sp),
            state = Standby,
            nextState = None,
            ring = [],
            waitingWorkers = None,
            queue = [],
            restartTimeoutHandle = None,
            onceStandby = [],
            pendingTimers = [],
            trace = []\<rparr>"

subsection \<open>Events\<close>

text \<open>
  What can happen to a load balancer between two observations: a call of a public method,
  an event of its server, or its restart timer firing. The timer queue fires the oldest
  pending handle and forgets it; with nothing pending, no timer fires.
\<close>

datatype event =
    START
  | STOP "callback option"
  | LISTENING addr
  | CONNECTION connection
  | ERROR err
  | CLOSE
  | RESTART_TIMEOUT
  | ADD_WORKER worker
  | REMOVE_WORKER worker

fun step :: "event \<Rightarrow> lb \<Rightarrow> error + lb" where
  "step START b = Inr (start b)"
| "step (STOP cb) b = stop cb b"
| "step (LISTENING a) b = handleListening a b"
| "step (CONNECTION c) b = Inr (handleConnection c b)"
| "step (ERROR e) b = handleError e b"
| "step CLOSE b = handleClose b"
| "step RESTART_TIMEOUT b =
     (case pendingTimers b of
        [] \<Rightarrow> Inr b
      | h # hs \<Rightarrow> Inr (handleRestartTimeout (b\<lparr>pendingTimers := hs\<rparr>)))"
| "step (ADD_WORKER w) b = Inr (addWorkerSupervisor w b)"
| "step (REMOVE_WORKER w) b = Inr (removeWorkerSupervisor w b)"

text \<open>A sequence of events; an exception ends the run.\<close>

fun run :: "event list \<Rightarrow> lb \<Rightarrow> error + lb" where
  "run [] b = Inr b"
| "run (ev # evs) b = (case step ev b of Inl e \<Rightarrow> Inl e | Inr b' \<Rightarrow> run evs b')"

subsection \<open>Observations on a trace\<close>

text \<open>The effects performed on the way from \<open>b\<close> to \<open>b'\<close>.\<close>

definition since :: "lb \<Rightarrow> lb \<Rightarrow> effect list" where
  "since b b' = drop (length (trace b)) (trace b')"

fun stateChanged :: "effect \<Rightarrow> lbstate list" where
  "stateChanged (EmitStateChange s) = [s]"
| "stateChanged _ = []"

fun closed :: "effect \<Rightarrow> nat list" where
  "closed (ServerClose sid) = [sid]"
| "closed _ = []"

fun listened :: "effect \<Rightarrow> nat list" where
  "listened (ServerListen sid p a bl) = [sid]"
| "listened _ = []"

fun receiver :: "effect \<Rightarrow> worker list" where
  "receiver (WorkerHandleConnection w p c) = [w]"
| "receiver _ = []"

fun informed :: "effect \<Rightarrow> worker list" where
  "informed (SendError w p e) = [w]"
| "informed _ = []"

text \<open>
  The states announced by \<^verbatim>\<open>'stateChange'\<close>, the servers asked to close, the servers asked
  to listen, the workers handed a connection and the workers sent an error, each in the
  order of the trace.
\<close>

definition stateChanges :: "effect list \<Rightarrow> lbstate list" where
  "stateChanges es = concat (map stateChanged es)"

definition closes :: "effect list \<Rightarrow> nat list" where
  "closes es = concat (map closed es)"

definition listens :: "effect list \<Rightarrow> nat list" where
  "listens es = concat (map listened es)"

definition receivers :: "effect list \<Rightarrow> worker list" where
  "receivers es = concat (map receiver es)"

definition errorsSent :: "effect list \<Rightarrow> worker list" where
  "errorsSent es = concat (map informed es)"

text \<open>The events that neither call \<^verbatim>\<open>start\<close> or \<^verbatim>\<open>stop\<close> nor come from the server or a timer.\<close>

fun bystander :: "event \<Rightarrow> bool" where
  "bystander (CONNECTION c) = True"
| "bystander (ADD_WORKER w) = True"
| "bystander (REMOVE_WORKER w) = True"
| "bystander _ = False"

text \<open>
  A run in which \<^verbatim>\<open>addWorkerSupervisor\<close> is only ever called with a worker supervisor that
  is not in the ring at that moment.
\<close>

fun addsFresh :: "event list \<Rightarrow> lb \<Rightarrow> bool" where
  "addsFresh [] b = True"
| "addsFresh (ev # evs) b =
     ((case ev of ADD_WORKER w \<Rightarrow> w \<notin> set (ring b) | _ \<Rightarrow> True) \<and>
      (case step ev b of Inl e \<Rightarrow> True | Inr b' \<Rightarrow> addsFresh evs b'))"

text \<open>
  The call that hands connection \<open>c\<close>, the \<open>k\<close>-th of a batch counted from 0, to the worker
  supervisor at position \<open>k mod n\<close> of the ring of \<open>b\<close>, \<open>n\<close> being the ring's length.
\<close>

definition dispatch :: "lb \<Rightarrow> nat \<times> connection \<Rightarrow> effect" where
  "dispatch b = (\<lambda>(k, c). WorkerHandleConnection (ring b ! (k mod length (ring b))) (port b) c)"

abbreviation spec0 :: spec where
  "spec0 \<equiv> \<lparr>spec_port = Some 8080, spec_address = None, spec_backlog = None,
             spec_restartDelay = None\<rparr>"

text \<open>
  A load balancer built from \<open>spec0\<close>: after worker supervisors 1 and 2 subscribed and the
  server reported that it listens at address 7.
\<close>

abbreviation running12 :: lb where
  "running12 \<equiv>
     \<lparr>port = Some 8080, requestedAddress = None, requestedBacklog = None,
      address = Some 7, server = Some 0, restartDelay = 0,
      state = Running, nextState = None, ring = [1, 2],
      waitingWorkers = None, queue = [], restartTimeoutHandle = None,
      onceStandby = [], pendingTimers = [],
      trace =
        [Emit Starting, EmitStateChange Starting, CreateServer 0,
         Logger Debug ''supervisor requesting to listen on port'',
         ServerListen 0 8080 None None,
         Logger Debug ''worker subscribed to connections'',
         Logger Debug ''worker subscribed to connections'', Emit Running,
         EmitStateChange Running,
         Logger Debug ''supervisor received address to listen on port'',
         SendAddress 1 (Some 8080) (Some 7),
         SendAddress 2 (Some 8080) (Some 7),
         Logger Debug ''connection backlog'']\<rparr>"

text \<open>
  The same, after a connection arrived first, then worker supervisor 1 subscribed, then the
  server reported that it listens at address 7.
\<close>

abbreviation running1 :: lb where
  "running1 \<equiv>
     \<lparr>port = Some 8080, requestedAddress = None, requestedBacklog = None,
      address = Some 7, server = Some 0, restartDelay = 0,
      state = Running, nextState = None, ring = [1],
      waitingWorkers = None, queue = [], restartTimeoutHandle = None,
      onceStandby = [], pendingTimers = [],
      trace =
        [Emit Starting, EmitStateChange Starting, CreateServer 0,
         Logger Debug ''supervisor requesting to listen on port'',
         ServerListen 0 8080 None None,
         Logger Info ''connection backlog'',
         Logger Debug ''worker subscribed to connections'', Emit Running,
         EmitStateChange Running,
         Logger Debug ''supervisor received address to listen on port'',
         SendAddress 1 (Some 8080) (Some 7),
         WorkerHandleConnection 1 (Some 8080) 10,
         Logger Debug ''connection backlog'']\<rparr>"

text \<open>
  The load balancer built from \<open>spec0\<close> after the server reported that it listens at address
  7 and \<^verbatim>\<open>stop\<close> was called; and the same after the server's \<^verbatim>\<open>'close'\<close> event.
\<close>

abbreviation stopping0 :: lb where
  "stopping0 \<equiv>
     \<lparr>port = Some 8080, requestedAddress = None, requestedBacklog = None,
      address = Some 7, server = Some 0, restartDelay = 0,
      state = Stopping, nextState = None, ring = [], waitingWorkers = None,
      queue = [], restartTimeoutHandle = None, onceStandby = [],
      pendingTimers = [],
      trace =
        [Emit Starting, EmitStateChange Starting, CreateServer 0,
         Logger Debug ''supervisor requesting to listen on port'',
         ServerListen 0 8080 None None, Emit Running,
         EmitStateChange Running,
         Logger Debug ''supervisor received address to listen on port'',
         ServerClose 0, Emit Stopping, EmitStateChange Stopping]\<rparr>"

abbreviation standby0 :: lb where
  "standby0 \<equiv>
     \<lparr>port = Some 8080, requestedAddress = None, requestedBacklog = None,
      address = Some 7, server = Some 0, restartDelay = 0,
      state = Standby, nextState = None, ring = [], waitingWorkers = None,
      queue = [], restartTimeoutHandle = None, onceStandby = [],
      pendingTimers = [],
      trace =
        [Emit Starting, EmitStateChange Starting, CreateServer 0,
         Logger Debug ''supervisor requesting to listen on port'',
         ServerListen 0 8080 None None, Emit Running,
         EmitStateChange Running,
         Logger Debug ''supervisor received address to listen on port'',
         ServerClose 0, Emit Stopping, EmitStateChange Stopping,
         Emit Standby, EmitStateChange Standby,
         Logger Info ''supervisor stopped listening on port'']\<rparr>"

section \<open>Verification\<close>

lemmas lb_defs = start_def stop_def goto_def perform_def fresh_def or0_def handleListening_def
  handleConnection_def flushConnectionQueue_def handleClose_def handleError_def
  handleRestartTimeout_def addWorkerSupervisor_def removeWorkerSupervisor_def
  RoundRobinLoadBalancer_def Let_def

lemmas lb_unfold = start_def stop_def goto_def perform_def handleListening_def handleClose_def
  handleError_def handleRestartTimeout_def addWorkerSupervisor_def removeWorkerSupervisor_def
  Let_def

subsection \<open>What a trace shows\<close>

lemma since_append: "trace b' = trace b @ es \<Longrightarrow> since b b' = es"
  by (simp add: since_def)

lemma observed_Nil:
  "stateChanges [] = []" "closes [] = []" "listens [] = []" "receivers [] = []"
  "errorsSent [] = []"
  by (simp_all add: stateChanges_def closes_def listens_def receivers_def errorsSent_def)

lemma observed_Cons:
  "stateChanges (x # xs) = stateChanged x @ stateChanges xs"
  "closes (x # xs) = closed x @ closes xs"
  "listens (x # xs) = listened x @ listens xs"
  "receivers (x # xs) = receiver x @ receivers xs"
  "errorsSent (x # xs) = informed x @ errorsSent xs"
  by (simp_all add: stateChanges_def closes_def listens_def receivers_def errorsSent_def)

lemma observed_append:
  "stateChanges (xs @ ys) = stateChanges xs @ stateChanges ys"
  "closes (xs @ ys) = closes xs @ closes ys"
  "listens (xs @ ys) = listens xs @ listens ys"
  "receivers (xs @ ys) = receivers xs @ receivers ys"
  "errorsSent (xs @ ys) = errorsSent xs @ errorsSent ys"
  by (simp_all add: stateChanges_def closes_def listens_def receivers_def errorsSent_def)

lemma observed_invoke:
  "stateChanges (map Invoke cs) = []" "closes (map Invoke cs) = []"
  "receivers (map Invoke cs) = []"
  by (induction cs) (simp_all add: observed_Nil observed_Cons)

lemma observed_send:
  "stateChanges (map (\<lambda>w. SendAddress w p a) ws) = []"
  "closes (map (\<lambda>w. SendAddress w p a) ws) = []"
  "receivers (map (\<lambda>w. SendAddress w p a) ws) = []"
  "stateChanges (map (\<lambda>w. SendError w p e) ws) = []"
  "closes (map (\<lambda>w. SendError w p e) ws) = []"
  "receivers (map (\<lambda>w. SendError w p e) ws) = []"
  by (induction ws) (simp_all add: observed_Nil observed_Cons)

lemmas observed = observed_Nil observed_Cons observed_append observed_invoke observed_send

lemma dispatch_observed:
  "stateChanges (map (dispatch b) xs) = []" "closes (map (dispatch b) xs) = []"
  "listens (map (dispatch b) xs) = []" "errorsSent (map (dispatch b) xs) = []"
  by (induction xs)
    (auto simp add: stateChanges_def closes_def listens_def errorsSent_def dispatch_def)


subsection \<open>Connections: one, and a batch\<close>

lemma handleConnection_running:
  assumes "state b = Running" "ring b \<noteq> []"
  shows "handleConnection c b =
           b\<lparr>ring := rotate1 (ring b),
             trace := trace b @ [WorkerHandleConnection (hd (ring b)) (port b) c]\<rparr>"
  using assms by (cases "ring b") (simp_all add: handleConnection_def perform_def)

lemma handleConnection_backlog:
  assumes "\<not> (state b = Running \<and> ring b \<noteq> [])"
  shows "handleConnection c b =
           b\<lparr>queue := queue b @ [c], trace := trace b @ [Logger Info ''connection backlog'']\<rparr>"
  using assms by (auto simp add: handleConnection_def perform_def)

lemma fold_handleConnection_running:
  assumes "state b = Running" "ring b \<noteq> []"
  shows "fold handleConnection cs b =
           b\<lparr>ring := rotate (length cs) (ring b),
             trace := trace b @ map (dispatch b) (enumerate 0 cs)\<rparr>"
proof (induction cs rule: rev_induct)
  case Nil
  show ?case by simp
next
  case (snoc c cs)
  let ?b = "b\<lparr>ring := rotate (length cs) (ring b),
               trace := trace b @ map (dispatch b) (enumerate 0 cs)\<rparr>"
  have st: "state ?b = Running" and ne: "ring ?b \<noteq> []"
    using assms by simp_all
  have hd: "hd (rotate (length cs) (ring b)) = ring b ! (length cs mod length (ring b))"
    using assms(2) by (simp add: hd_rotate_conv_nth)
  have "fold handleConnection (cs @ [c]) b = handleConnection c ?b"
    using snoc.IH by simp
  also have "\<dots> = ?b\<lparr>ring := rotate1 (ring ?b),
                       trace := trace ?b @ [WorkerHandleConnection (hd (ring ?b)) (port ?b) c]\<rparr>"
    by (rule handleConnection_running [OF st ne])
  also have "\<dots> = b\<lparr>ring := rotate (length (cs @ [c])) (ring b),
                       trace := trace b @ map (dispatch b) (enumerate 0 (cs @ [c]))\<rparr>"
    by (simp add: hd enumerate_append_eq dispatch_def)
  finally show ?case .
qed

lemma fold_handleConnection_backlog:
  assumes "\<not> (state b = Running \<and> ring b \<noteq> [])"
  shows "fold handleConnection cs b =
           b\<lparr>queue := queue b @ cs,
             trace := trace b @ replicate (length cs) (Logger Info ''connection backlog'')\<rparr>"
proof (induction cs rule: rev_induct)
  case Nil
  show ?case by simp
next
  case (snoc c cs)
  let ?b = "b\<lparr>queue := queue b @ cs,
             trace := trace b @ replicate (length cs) (Logger Info ''connection backlog'')\<rparr>"
  have n: "\<not> (state ?b = Running \<and> ring ?b \<noteq> [])" using assms by simp
  have "fold handleConnection (cs @ [c]) b = handleConnection c ?b"
    using snoc.IH by simp
  also have "\<dots> = ?b\<lparr>queue := queue ?b @ [c],
                      trace := trace ?b @ [Logger Info ''connection backlog'']\<rparr>"
    by (rule handleConnection_backlog [OF n])
  also have "\<dots> = b\<lparr>queue := queue b @ (cs @ [c]),
             trace := trace b @ replicate (length (cs @ [c])) (Logger Info ''connection backlog'')\<rparr>"
    by (simp add: replicate_append_same)
  finally show ?case .
qed

lemma flushConnectionQueue_running:
  assumes "state b = Running" "ring b \<noteq> []"
  shows "flushConnectionQueue b =
           b\<lparr>ring := rotate (length (queue b)) (ring b), queue := [],
             trace := trace b @ map (dispatch b) (enumerate 0 (queue b)) @
                      [Logger Debug ''connection backlog'']\<rparr>"
  using assms by (simp add: flushConnectionQueue_def perform_def fold_handleConnection_running)

lemma flushConnectionQueue_idle:
  assumes "\<not> (state b = Running \<and> ring b \<noteq> [])"
  shows "flushConnectionQueue b = b"
  using assms by (auto simp add: flushConnectionQueue_def)


subsection \<open>Frames of the methods\<close>

lemma handleConnection_frame:
  "state (handleConnection c b) = state b"
  "address (handleConnection c b) = address b"
  "server (handleConnection c b) = server b"
  by (cases "state b = Running \<and> ring b \<noteq> []";
      simp add: handleConnection_running handleConnection_backlog)+

lemma handleConnection_ring:
  "ring (handleConnection c b) = (if state b = Running then rotate1 (ring b) else ring b)"
  by (cases "state b = Running \<and> ring b \<noteq> []")
    (auto simp add: handleConnection_running handleConnection_backlog)

lemma handleConnection_queue:
  "queue (handleConnection c b) =
     (if state b = Running \<and> ring b \<noteq> [] then queue b else queue b @ [c])"
  by (cases "state b = Running \<and> ring b \<noteq> []")
    (auto simp add: handleConnection_running handleConnection_backlog)

lemma handleConnection_observed:
  "stateChanges (trace (handleConnection c b)) = stateChanges (trace b)"
  "closes (trace (handleConnection c b)) = closes (trace b)"
  by (cases "state b = Running \<and> ring b \<noteq> []";
      simp add: handleConnection_running handleConnection_backlog observed)+

lemma flushConnectionQueue_frame:
  "state (flushConnectionQueue b) = state b"
  "address (flushConnectionQueue b) = address b"
  "server (flushConnectionQueue b) = server b"
  "nextState (flushConnectionQueue b) = nextState b"
  "pendingTimers (flushConnectionQueue b) = pendingTimers b"
  "restartTimeoutHandle (flushConnectionQueue b) = restartTimeoutHandle b"
  "onceStandby (flushConnectionQueue b) = onceStandby b"
  "restartDelay (flushConnectionQueue b) = restartDelay b"
  "port (flushConnectionQueue b) = port b"
  by (cases "state b = Running \<and> ring b \<noteq> []";
      simp add: flushConnectionQueue_running flushConnectionQueue_idle)+

lemma flushConnectionQueue_ring:
  "ring (flushConnectionQueue b) =
     (if state b = Running then rotate (length (queue b)) (ring b) else ring b)"
  by (cases "state b = Running \<and> ring b \<noteq> []")
    (auto simp add: flushConnectionQueue_running flushConnectionQueue_idle)

lemma flushConnectionQueue_queue:
  "queue (flushConnectionQueue b) = (if state b = Running \<and> ring b \<noteq> [] then [] else queue b)"
  by (cases "state b = Running \<and> ring b \<noteq> []")
    (auto simp add: flushConnectionQueue_running flushConnectionQueue_idle)

lemma flushConnectionQueue_trace:
  "\<exists>es. trace (flushConnectionQueue b) = trace b @ es \<and>
        stateChanges es = [] \<and> closes es = [] \<and> listens es = [] \<and> errorsSent es = []"
proof (cases "state b = Running \<and> ring b \<noteq> []")
  case True
  then have "trace (flushConnectionQueue b) =
      trace b @ (map (dispatch b) (enumerate 0 (queue b)) @ [Logger Debug ''connection backlog''])"
    by (simp add: flushConnectionQueue_running)
  moreover have "stateChanges (map (dispatch b) (enumerate 0 (queue b)) @ [Logger Debug ''connection backlog'']) = []"
    "closes (map (dispatch b) (enumerate 0 (queue b)) @ [Logger Debug ''connection backlog'']) = []"
    "listens (map (dispatch b) (enumerate 0 (queue b)) @ [Logger Debug ''connection backlog'']) = []"
    "errorsSent (map (dispatch b) (enumerate 0 (queue b)) @ [Logger Debug ''connection backlog'']) = []"
    using dispatch_observed [of b "enumerate 0 (queue b)"]
    by (simp_all add: stateChanges_def closes_def listens_def errorsSent_def)
  ultimately show ?thesis by blast
next
  case False
  then have "trace (flushConnectionQueue b) = trace b @ []"
    by (simp add: flushConnectionQueue_idle)
  moreover have "stateChanges [] = []" "closes [] = []" "listens [] = []" "errorsSent [] = []"
    by (simp_all add: stateChanges_def closes_def listens_def errorsSent_def)
  ultimately show ?thesis by blast
qed

lemma flushConnectionQueue_observed:
  "stateChanges (trace (flushConnectionQueue b)) = stateChanges (trace b)"
  "closes (trace (flushConnectionQueue b)) = closes (trace b)"
  using flushConnectionQueue_trace [of b] by (auto simp add: observed_append)

lemmas frames = flushConnectionQueue_frame flushConnectionQueue_ring flushConnectionQueue_queue
  handleConnection_frame handleConnection_ring handleConnection_queue

lemma start_standby:
  assumes "state b = Standby"
  shows "start b =
           b\<lparr>state := Starting, server := Some (fresh (server b)),
             trace := trace b @
               [Emit Starting, EmitStateChange Starting, CreateServer (fresh (server b)),
                Logger Debug ''supervisor requesting to listen on port'',
                ServerListen (fresh (server b)) (or0 (port b)) (requestedAddress b)
                  (requestedBacklog b)]\<rparr>"
  using assms by (simp add: start_def goto_def perform_def Let_def)

lemma stop_starting:
  assumes "state b = Starting"
  shows "\<exists>b'. stop cb b = Inr b' \<and> state b' = Stopping \<and> server b' = server b \<and>
           nextState b' = nextState b \<and>
           trace b' = trace b @ [Emit Stopping, EmitStateChange Stopping]"
  using assms by (cases cb) (simp_all add: stop_def goto_def perform_def)

lemma handleListening_starting:
  assumes "state b = Starting" "server b = Some sid"
  shows "handleListening a b =
           Inr (flushConnectionQueue
             (b\<lparr>state := Running, address := Some a,
                trace := trace b @
                  [Emit Running, EmitStateChange Running,
                   Logger Debug ''supervisor received address to listen on port''] @
                  map (\<lambda>w. SendAddress w (port b) (Some a)) (ring b)\<rparr>))"
  using assms by (simp add: handleListening_def goto_def perform_def Let_def)

lemma handleListening_stopping:
  assumes "state b = Stopping" "server b = Some sid"
  shows "handleListening a b =
           Inr (b\<lparr>trace := trace b @
                  [Logger Warn ''supervisor shutting down server before confirmed to be listening'',
                   ServerClose sid]\<rparr>)"
  using assms by (simp add: handleListening_def perform_def Let_def)

lemma handleClose_stopping_since:
  assumes "state b = Stopping"
  shows "\<exists>b' es. handleClose b = Inr b' \<and> state b' = Standby \<and>
           trace b' = trace b @ es \<and>
           stateChanges es = [Standby] \<and> closes es = [] \<and> receivers es = []"
proof (cases "nextState b = Some Starting")
  case True
  let ?h = "fresh (restartTimeoutHandle b)"
  let ?es = "[Emit Standby] @ map Invoke (onceStandby b) @
               [EmitStateChange Standby, Logger Info ''supervisor stopped listening on port'',
                SetTimeout ?h (restartDelay b)]"
  let ?b = "b\<lparr>state := Standby, onceStandby := [], nextState := None,
              restartTimeoutHandle := Some ?h, pendingTimers := pendingTimers b @ [?h],
              trace := trace b @ ?es\<rparr>"
  have "handleClose b = Inr ?b"
    using assms True by (simp add: handleClose_def goto_def perform_def Let_def)
  moreover have "stateChanges ?es = [Standby]" "closes ?es = []" "receivers ?es = []"
    by (simp_all add: observed)
  ultimately show ?thesis by (intro exI [of _ ?b] exI [of _ ?es]) simp
next
  case False
  let ?es = "[Emit Standby] @ map Invoke (onceStandby b) @
               [EmitStateChange Standby, Logger Info ''supervisor stopped listening on port'']"
  let ?b = "b\<lparr>state := Standby, onceStandby := [], trace := trace b @ ?es\<rparr>"
  have "handleClose b = Inr ?b"
    using assms False by (simp add: handleClose_def goto_def perform_def Let_def)
  moreover have "stateChanges ?es = [Standby]" "closes ?es = []" "receivers ?es = []"
    by (simp_all add: observed)
  ultimately show ?thesis by (intro exI [of _ ?b] exI [of _ ?es]) simp
qed

lemma step_restart_timeout:
  assumes "pendingTimers b \<noteq> []"
  shows "step RESTART_TIMEOUT b =
           Inr (handleRestartTimeout (b\<lparr>pendingTimers := tl (pendingTimers b)\<rparr>))"
  using assms by (cases "pendingTimers b") simp_all

lemma run_append:
  "run (xs @ ys) b = (case run xs b of Inl e \<Rightarrow> Inl e | Inr b' \<Rightarrow> run ys b')"
  by (induction xs arbitrary: b) (simp_all split: sum.splits)

subsection \<open>Concrete load balancers\<close>

lemma running12_reached:
  "run [ADD_WORKER 1, ADD_WORKER 2, LISTENING 7] (RoundRobinLoadBalancer spec0) = Inr running12"
  by (simp add: lb_defs)

lemma stopping0_reached:
  "run [LISTENING 7, STOP None] (RoundRobinLoadBalancer spec0) = Inr stopping0"
  by (simp add: lb_defs)

lemma standby0_reached:
  "run [LISTENING 7, STOP None, CLOSE] (RoundRobinLoadBalancer spec0) = Inr standby0"
  by (simp add: lb_defs)

subsection \<open>Construction and \<^verbatim>\<open>start\<close>\<close>

text \<open>
  C10. The constructor calls \<^verbatim>\<open>start\<close> as its last step: for every specification object the
  new load balancer is in \<^verbatim>\<open>'starting'\<close>, not in \<^verbatim>\<open>'standby'\<close>, it has created its server and
  has asked it to listen, once, on the requested port (or 0), address and backlog.
\<close>

theorem constructor_auto_starts:
  "state (RoundRobinLoadBalancer sp) = Starting \<and>
   state (RoundRobinLoadBalancer sp) \<noteq> Standby \<and>
   server (RoundRobinLoadBalancer sp) = Some 0 \<and>
   trace (RoundRobinLoadBalancer sp) =
     [Emit Starting, EmitStateChange Starting, CreateServer 0,
      Logger Debug ''supervisor requesting to listen on port'',
      ServerListen 0 (or0 (spec_port sp)) (spec_address sp) (spec_backlog sp)] \<and>
   listens (trace (RoundRobinLoadBalancer sp)) = [0]"
  by (simp add: RoundRobinLoadBalancer_def start_def goto_def perform_def fresh_def listens_def Let_def)

text \<open>
  C6. The transition table of \<^verbatim>\<open>start\<close>: from \<^verbatim>\<open>'standby'\<close> the state becomes \<^verbatim>\<open>'starting'\<close>, a
  server is created and asked to listen, and nothing else changes; from \<^verbatim>\<open>'stopping'\<close> only
  \<^verbatim>\<open>nextState\<close> is set to \<^verbatim>\<open>'starting'\<close>; from \<^verbatim>\<open>'starting'\<close> and \<^verbatim>\<open>'running'\<close> the object is
  unchanged. A second call in a row changes nothing more.
\<close>

theorem start_transition_table:
  "(state b = Standby \<longrightarrow>
      start b = b\<lparr>state := Starting, server := Some (fresh (server b)),
                  trace := trace b @
                    [Emit Starting, EmitStateChange Starting, CreateServer (fresh (server b)),
                     Logger Debug ''supervisor requesting to listen on port'',
                     ServerListen (fresh (server b)) (or0 (port b)) (requestedAddress b)
                       (requestedBacklog b)]\<rparr>) \<and>
   (state b = Stopping \<longrightarrow> start b = b\<lparr>nextState := Some Starting\<rparr>) \<and>
   (state b = Starting \<or> state b = Running \<longrightarrow> start b = b) \<and>
   start (start b) = start b"
  by (cases "state b") (simp_all add: start_def goto_def perform_def Let_def)

theorem start_transition_table_witness:
  "state standby0 = Standby \<and> state (start standby0) = Starting \<and>
   listens (since standby0 (start standby0)) = [1] \<and>
   state stopping0 = Stopping \<and> start stopping0 = stopping0\<lparr>nextState := Some Starting\<rparr> \<and>
   state (RoundRobinLoadBalancer spec0) = Starting \<and>
   start (RoundRobinLoadBalancer spec0) = RoundRobinLoadBalancer spec0 \<and>
   state running12 = Running \<and> start running12 = running12 \<and>
   start (start standby0) = start standby0"
proof -
  let ?n = "RoundRobinLoadBalancer spec0"
  have s: "state standby0 = Standby" "state stopping0 = Stopping" "state ?n = Starting"
    "state running12 = Running"
    by (simp_all add: lb_defs)
  from s(1) start_transition_table [of standby0]
  have a: "start standby0 =
      standby0\<lparr>state := Starting, server := Some (fresh (server standby0)),
        trace := trace standby0 @
          [Emit Starting, EmitStateChange Starting, CreateServer (fresh (server standby0)),
           Logger Debug ''supervisor requesting to listen on port'',
           ServerListen (fresh (server standby0)) (or0 (port standby0))
             (requestedAddress standby0) (requestedBacklog standby0)]\<rparr>"
    and i: "start (start standby0) = start standby0"
    by blast+
  have a1: "state (start standby0) = Starting" by (subst a) simp
  have "since standby0 (start standby0) =
          [Emit Starting, EmitStateChange Starting, CreateServer (fresh (server standby0)),
           Logger Debug ''supervisor requesting to listen on port'',
           ServerListen (fresh (server standby0)) (or0 (port standby0))
             (requestedAddress standby0) (requestedBacklog standby0)]"
    by (rule since_append) (subst a, simp)
  then have a2: "listens (since standby0 (start standby0)) = [1]"
    by (simp add: observed fresh_def)
  from s(2) start_transition_table [of stopping0]
  have b: "start stopping0 = stopping0\<lparr>nextState := Some Starting\<rparr>" by blast
  from s(3) start_transition_table [of ?n]
  have c: "start ?n = ?n" by blast
  from s(4) start_transition_table [of running12]
  have d: "start running12 = running12" by blast
  from s a1 a2 b c d i show ?thesis by blast
qed

subsection \<open>Round robin\<close>











subsection \<open>Restart\<close>

text \<open>
  C9. When \<^verbatim>\<open>start\<close> is called in \<^verbatim>\<open>'stopping'\<close> it only latches \<^verbatim>\<open>nextState = 'starting'\<close>. The
  next \<^verbatim>\<open>'close'\<close> event then moves the load balancer to \<^verbatim>\<open>'standby'\<close>, arms one timer of
  \<^verbatim>\<open>restartDelay\<close> milliseconds (the last effect of the handler, with no listen request
  before it) and clears \<^verbatim>\<open>nextState\<close>. When a pending timer fires, \<^verbatim>\<open>start\<close> runs: the load
  balancer is in \<^verbatim>\<open>'starting'\<close> and has asked a new server to listen, and the next
  \<^verbatim>\<open>'listening'\<close> event brings it to \<^verbatim>\<open>'running'\<close>. The run has no call of \<^verbatim>\<open>start\<close> but the
  latching one.
\<close>

theorem restart_latching:
  assumes "state b = Stopping"
  shows "\<exists>b1 b2 b3 h.
           start b = b\<lparr>nextState := Some Starting\<rparr> \<and>
           handleClose (start b) = Inr b1 \<and>
           state b1 = Standby \<and> nextState b1 = None \<and>
           restartTimeoutHandle b1 = Some h \<and>
           pendingTimers b1 = pendingTimers b @ [h] \<and>
           last (trace b1) = SetTimeout h (restartDelay b) \<and>
           listens (since b b1) = [] \<and>
           step RESTART_TIMEOUT b1 = Inr b2 \<and>
           b2 = handleRestartTimeout (b1\<lparr>pendingTimers := tl (pendingTimers b1)\<rparr>) \<and>
           state b2 = Starting \<and>
           listens (since b1 b2) = [fresh (server b)] \<and>
           step (LISTENING a) b2 = Inr b3 \<and> state b3 = Running \<and>
           address b3 = Some a \<and>
           run [START, CLOSE, RESTART_TIMEOUT, LISTENING a] b = Inr b3"
proof -
  let ?h = "fresh (restartTimeoutHandle b)"
  let ?b1 = "b\<lparr>state := Standby, onceStandby := [], nextState := None,
                restartTimeoutHandle := Some ?h,
                pendingTimers := pendingTimers b @ [?h],
                trace := trace b @ [Emit Standby] @ map Invoke (onceStandby b) @
                  [EmitStateChange Standby,
                   Logger Info ''supervisor stopped listening on port'',
                   SetTimeout ?h (restartDelay b)]\<rparr>"
  let ?b2 = "handleRestartTimeout (?b1\<lparr>pendingTimers := tl (pendingTimers ?b1)\<rparr>)"
  let ?b3 = "flushConnectionQueue
             (?b2\<lparr>state := Running, address := Some a,
                trace := trace ?b2 @
                  [Emit Running, EmitStateChange Running,
                   Logger Debug ''supervisor received address to listen on port''] @
                  map (\<lambda>w. SendAddress w (port ?b2) (Some a)) (ring ?b2)\<rparr>)"
  have s: "start b = b\<lparr>nextState := Some Starting\<rparr>"
    using assms by (simp add: start_def)
  have c: "handleClose (start b) = Inr ?b1"
    using assms by (simp add: s handleClose_def goto_def perform_def Let_def)
  have l1: "listens (since b ?b1) = []"
    by (simp add: since_def listens_def)
  have t: "step RESTART_TIMEOUT ?b1 = Inr ?b2"
    by (rule step_restart_timeout) simp
  have st2: "state ?b2 = Starting" and srv2: "server ?b2 = Some (fresh (server b))"
    by (simp_all add: handleRestartTimeout_def start_standby)
  have "since ?b1 ?b2 =
          [Emit Starting, EmitStateChange Starting, CreateServer (fresh (server b)),
           Logger Debug ''supervisor requesting to listen on port'',
           ServerListen (fresh (server b)) (or0 (port b)) (requestedAddress b)
             (requestedBacklog b)]"
    by (rule since_append) (simp add: handleRestartTimeout_def start_standby)
  then have l2: "listens (since ?b1 ?b2) = [fresh (server b)]"
    by (simp add: listens_def)
  have l: "step (LISTENING a) ?b2 = Inr ?b3"
    using handleListening_starting [OF st2 srv2] by simp
  have st3: "state ?b3 = Running" and a3: "address ?b3 = Some a"
    by (simp_all add: flushConnectionQueue_frame)
  have r: "run [START, CLOSE, RESTART_TIMEOUT, LISTENING a] b = Inr ?b3"
    using c t l by simp
  have f1: "state ?b1 = Standby" "nextState ?b1 = None" "restartTimeoutHandle ?b1 = Some ?h"
    "pendingTimers ?b1 = pendingTimers b @ [?h]"
    "last (trace ?b1) = SetTimeout ?h (restartDelay b)"
    by simp_all
  show ?thesis
    using s c f1 l1 t st2 l2 l st3 a3 r by blast
qed

theorem restart_latching_witness:
  "run [LISTENING 7, STOP None] (RoundRobinLoadBalancer spec0) = Inr stopping0 \<and>
   state stopping0 = Stopping \<and>
   (\<exists>b1 b3 h. handleClose (start stopping0) = Inr b1 \<and> state b1 = Standby \<and>
      nextState b1 = None \<and> pendingTimers b1 = [h] \<and> last (trace b1) = SetTimeout h 0 \<and>
      run [START, CLOSE, RESTART_TIMEOUT, LISTENING 9] stopping0 = Inr b3 \<and>
      state b3 = Running \<and> address b3 = Some 9)"
proof -
  have s: "state stopping0 = Stopping" by simp
  from restart_latching [OF s, of 9]
  obtain b1 b3 h where
    "handleClose (start stopping0) = Inr b1" "state b1 = Standby" "nextState b1 = None"
    "pendingTimers b1 = pendingTimers stopping0 @ [h]"
    "last (trace b1) = SetTimeout h (restartDelay stopping0)"
    "run [START, CLOSE, RESTART_TIMEOUT, LISTENING 9] stopping0 = Inr b3"
    "state b3 = Running" "address b3 = Some 9"
    by blast
  then have "handleClose (start stopping0) = Inr b1 \<and> state b1 = Standby \<and>
      nextState b1 = None \<and> pendingTimers b1 = [h] \<and> last (trace b1) = SetTimeout h 0 \<and>
      run [START, CLOSE, RESTART_TIMEOUT, LISTENING 9] stopping0 = Inr b3 \<and>
      state b3 = Running \<and> address b3 = Some 9"
    by simp
  then show ?thesis using stopping0_reached s by blast
qed

subsection \<open>Errors of the server\<close>



subsection \<open>The ring\<close>

lemma step_ring_distinct:
  assumes "step ev b = Inr b'" "distinct (ring b)" "\<forall>w. ev = ADD_WORKER w \<longrightarrow> w \<notin> set (ring b)"
  shows "distinct (ring b')"
  using assms
  by (cases ev) (auto simp add: lb_unfold frames split: if_splits option.splits list.splits)

lemma run_ring_distinct:
  assumes "distinct (ring b)" "addsFresh evs b" "run evs b = Inr b'"
  shows "distinct (ring b')"
  using assms
proof (induction evs arbitrary: b)
  case Nil
  then show ?case by simp
next
  case (Cons ev evs)
  from Cons.prems(3) obtain b1 where s: "step ev b = Inr b1" and r: "run evs b1 = Inr b'"
    by (auto split: sum.splits)
  from Cons.prems(2) s have f: "\<forall>w. ev = ADD_WORKER w \<longrightarrow> w \<notin> set (ring b)"
    and a: "addsFresh evs b1"
    by auto
  from s Cons.prems(1) f have "distinct (ring b1)" by (rule step_ring_distinct)
  then show ?case using a r by (rule Cons.IH)
qed

text \<open>
  C1, as the code has it. \<^verbatim>\<open>addWorkerSupervisor\<close> appends without looking: subscribing worker
  supervisor 1 twice to a new load balancer leaves it twice in the ring.
\<close>

theorem ring_duplicate_counterexample:
  "ring (addWorkerSupervisor 1 (addWorkerSupervisor 1 (RoundRobinLoadBalancer spec0))) = [1, 1] \<and>
   count_list
     (ring (addWorkerSupervisor 1 (addWorkerSupervisor 1 (RoundRobinLoadBalancer spec0)))) 1 = 2"
  by (simp add: lb_defs)

text \<open>
  C1, amended. The ring of a new load balancer is empty, and from a ring without
  duplicates, every sequence of events in which \<^verbatim>\<open>addWorkerSupervisor\<close> is only called with
  a worker supervisor that is not in the ring at that moment leaves a ring without
  duplicates.
\<close>

theorem ring_uniqueness_fresh_adds:
  "ring (RoundRobinLoadBalancer sp) = [] \<and>
   (distinct (ring b) \<and> addsFresh evs b \<and> run evs b = Inr b' \<longrightarrow> distinct (ring b'))"
  using run_ring_distinct [of b evs b'] by (simp add: lb_defs)

theorem ring_uniqueness_fresh_adds_witness:
  "distinct (ring (RoundRobinLoadBalancer spec0)) \<and>
   addsFresh [ADD_WORKER 1, ADD_WORKER 2, LISTENING 7] (RoundRobinLoadBalancer spec0) \<and>
   run [ADD_WORKER 1, ADD_WORKER 2, LISTENING 7] (RoundRobinLoadBalancer spec0) = Inr running12 \<and>
   distinct (ring running12)"
proof -
  have d: "distinct (ring (RoundRobinLoadBalancer spec0))" by (simp add: lb_defs)
  have f: "addsFresh [ADD_WORKER 1, ADD_WORKER 2, LISTENING 7] (RoundRobinLoadBalancer spec0)"
    by (simp add: lb_defs)
  from d f running12_reached
    ring_uniqueness_fresh_adds [of spec0 "RoundRobinLoadBalancer spec0"
      "[ADD_WORKER 1, ADD_WORKER 2, LISTENING 7]" running12]
  show ?thesis by blast
qed

subsection \<open>The backlog\<close>

lemma step_backlog:
  assumes "step ev b = Inr b'" "state b = Running \<and> ring b \<noteq> [] \<longrightarrow> queue b = []"
  shows "state b' = Running \<and> ring b' \<noteq> [] \<longrightarrow> queue b' = []"
  using assms
  by (cases ev) (auto simp add: lb_unfold frames split: if_splits option.splits list.splits)

lemma run_backlog:
  assumes "run evs b = Inr b'" "state b = Running \<and> ring b \<noteq> [] \<longrightarrow> queue b = []"
  shows "state b' = Running \<and> ring b' \<noteq> [] \<longrightarrow> queue b' = []"
  using assms
proof (induction evs arbitrary: b)
  case Nil
  then show ?case by simp
next
  case (Cons ev evs)
  from Cons.prems(1) obtain b1 where s: "step ev b = Inr b1" and r: "run evs b1 = Inr b'"
    by (auto split: sum.splits)
  from s Cons.prems(2) have "state b1 = Running \<and> ring b1 \<noteq> [] \<longrightarrow> queue b1 = []"
    by (rule step_backlog)
  with r show ?case by (rule Cons.IH)
qed

text \<open>
  C4. After every sequence of events on a new load balancer: when it is running and its
  ring is not empty, its queue is empty.
\<close>

theorem backlog_emptiness:
  assumes "run evs (RoundRobinLoadBalancer sp) = Inr b" "state b = Running" "ring b \<noteq> []"
  shows "queue b = []"
proof -
  have "state (RoundRobinLoadBalancer sp) = Starting" by (simp add: lb_defs)
  then have "state (RoundRobinLoadBalancer sp) = Running \<and> ring (RoundRobinLoadBalancer sp) \<noteq> []
      \<longrightarrow> queue (RoundRobinLoadBalancer sp) = []"
    by simp
  with assms(1) have "state b = Running \<and> ring b \<noteq> [] \<longrightarrow> queue b = []"
    by (rule run_backlog)
  with assms(2,3) show ?thesis by simp
qed

theorem backlog_emptiness_witness:
  "map_sum id queue (run [CONNECTION 10, ADD_WORKER 1] (RoundRobinLoadBalancer spec0)) = Inr [10] \<and>
   run [CONNECTION 10, ADD_WORKER 1, LISTENING 7] (RoundRobinLoadBalancer spec0) = Inr running1 \<and>
   state running1 = Running \<and> ring running1 \<noteq> [] \<and> queue running1 = []"
proof -
  have q: "map_sum id queue (run [CONNECTION 10, ADD_WORKER 1] (RoundRobinLoadBalancer spec0)) =
             Inr [10]"
    by (simp add: lb_defs)
  have r: "run [CONNECTION 10, ADD_WORKER 1, LISTENING 7] (RoundRobinLoadBalancer spec0) =
             Inr running1"
    by (simp add: lb_defs)
  have s: "state running1 = Running" and n: "ring running1 \<noteq> []" by simp_all
  from q r s n backlog_emptiness [OF r s n] show ?thesis by blast
qed

subsection \<open>The address\<close>

lemma step_address:
  assumes "step ev b = Inr b'"
    and "state b = Running \<longrightarrow> address b \<noteq> None"
    and "address b \<noteq> None \<longleftrightarrow> Running \<in> set (stateChanges (trace b))"
  shows "(state b' = Running \<longrightarrow> address b' \<noteq> None) \<and>
         (address b' \<noteq> None \<longleftrightarrow> Running \<in> set (stateChanges (trace b')))"
  using assms
  by (cases ev)
    (auto simp add: lb_unfold frames observed flushConnectionQueue_observed
       handleConnection_observed split: if_splits option.splits list.splits)

lemma run_address:
  assumes "run evs b = Inr b'"
    and "state b = Running \<longrightarrow> address b \<noteq> None"
    and "address b \<noteq> None \<longleftrightarrow> Running \<in> set (stateChanges (trace b))"
  shows "(state b' = Running \<longrightarrow> address b' \<noteq> None) \<and>
         (address b' \<noteq> None \<longleftrightarrow> Running \<in> set (stateChanges (trace b')))"
  using assms
proof (induction evs arbitrary: b)
  case Nil
  then show ?case by simp
next
  case (Cons ev evs)
  from Cons.prems(1) obtain b1 where s: "step ev b = Inr b1" and r: "run evs b1 = Inr b'"
    by (auto split: sum.splits)
  from step_address [OF s Cons.prems(2,3)]
  have "state b1 = Running \<longrightarrow> address b1 \<noteq> None"
    and "address b1 \<noteq> None \<longleftrightarrow> Running \<in> set (stateChanges (trace b1))"
    by blast+
  with r show ?case by (rule Cons.IH)
qed

text \<open>
  C2, as the code has it. \<^verbatim>\<open>stop\<close> during \<^verbatim>\<open>'starting'\<close> gives \<^verbatim>\<open>'stopping'\<close> with a null
  address, and after listening, stop and close the load balancer is in \<^verbatim>\<open>'standby'\<close> with the
  address it was granted: no method ever resets \<^verbatim>\<open>address\<close>. (The tuples are those of
  \<^verbatim>\<open>inspect\<close>: state, port, address, length of the queue.)
\<close>

theorem address_state_counterexample:
  "map_sum id inspect (run [STOP None] (RoundRobinLoadBalancer spec0)) =
     Inr (Stopping, Some 8080, None, 0) \<and>
   map_sum id inspect (run [LISTENING 7, STOP None, CLOSE] (RoundRobinLoadBalancer spec0)) =
     Inr (Standby, Some 8080, Some 7, 0)"
  by (simp add: lb_defs inspect_def)

text \<open>
  C2, amended. The address of a new load balancer is null. After every sequence of events
  on a new load balancer: in \<^verbatim>\<open>'running'\<close> the address is not null; and the address is not null
  if and only if the load balancer has announced \<^verbatim>\<open>'running'\<close> at some time since it was
  constructed.
\<close>

theorem address_set_on_running:
  assumes "run evs (RoundRobinLoadBalancer sp) = Inr b"
  shows "address (RoundRobinLoadBalancer sp) = None \<and>
         (state b = Running \<longrightarrow> address b \<noteq> None) \<and>
         (address b \<noteq> None \<longleftrightarrow> Running \<in> set (stateChanges (trace b)))"
proof -
  let ?n = "RoundRobinLoadBalancer sp"
  have n: "address ?n = None" "state ?n = Starting" "stateChanges (trace ?n) = [Starting]"
    by (simp_all add: lb_defs observed)
  then have "state ?n = Running \<longrightarrow> address ?n \<noteq> None"
    and "address ?n \<noteq> None \<longleftrightarrow> Running \<in> set (stateChanges (trace ?n))"
    by simp_all
  with assms have "(state b = Running \<longrightarrow> address b \<noteq> None) \<and>
         (address b \<noteq> None \<longleftrightarrow> Running \<in> set (stateChanges (trace b)))"
    by (rule run_address)
  with n(1) show ?thesis by blast
qed

theorem address_set_on_running_witness:
  "run [ADD_WORKER 1, ADD_WORKER 2, LISTENING 7] (RoundRobinLoadBalancer spec0) = Inr running12 \<and>
   state running12 = Running \<and> address running12 \<noteq> None \<and>
   Running \<in> set (stateChanges (trace running12)) \<and>
   run [LISTENING 7, STOP None, CLOSE] (RoundRobinLoadBalancer spec0) = Inr standby0 \<and>
   state standby0 = Standby \<and> address standby0 \<noteq> None \<and>
   Running \<in> set (stateChanges (trace standby0)) \<and>
   run [] (RoundRobinLoadBalancer spec0) = Inr (RoundRobinLoadBalancer spec0) \<and>
   address (RoundRobinLoadBalancer spec0) = None \<and>
   Running \<notin> set (stateChanges (trace (RoundRobinLoadBalancer spec0)))"
proof -
  have s: "state running12 = Running" "state standby0 = Standby" by simp_all
  have a: "address standby0 \<noteq> None" by simp
  have e: "run [] (RoundRobinLoadBalancer spec0) = Inr (RoundRobinLoadBalancer spec0)" by simp
  from s a e running12_reached standby0_reached
    address_set_on_running [OF running12_reached]
    address_set_on_running [OF standby0_reached]
    address_set_on_running [OF e]
  show ?thesis by blast
qed

subsection \<open>\<^verbatim>\<open>stop\<close> and the restart timer\<close>




subsection \<open>\<^verbatim>\<open>stop\<close> while starting\<close>

text \<open>
  Outside \<^verbatim>\<open>'running'\<close>, a bystander's event changes the ring or the queue and nothing else
  that matters to the life cycle.
\<close>

lemma step_bystander_since:
  assumes "bystander ev" "state b \<noteq> Running"
  shows "\<exists>b' es. step ev b = Inr b' \<and> state b' = state b \<and> server b' = server b \<and>
           trace b' = trace b @ es \<and>
           stateChanges es = [] \<and> closes es = [] \<and> receivers es = []"
proof (cases ev)
  case (CONNECTION c)
  let ?es = "[Logger Info ''connection backlog'']"
  have "step ev b = Inr (b\<lparr>queue := queue b @ [c], trace := trace b @ ?es\<rparr>)"
    using assms(2) CONNECTION by (simp add: handleConnection_backlog)
  moreover have "stateChanges ?es = []" "closes ?es = []" "receivers ?es = []"
    by (simp_all add: observed)
  ultimately show ?thesis by (intro exI [of _ "b\<lparr>queue := queue b @ [c], trace := trace b @ ?es\<rparr>"] exI [of _ ?es]) simp
next
  case (ADD_WORKER w)
  let ?es = "[Logger Debug ''worker subscribed to connections'']"
  have "step ev b = Inr (b\<lparr>ring := ring b @ [w], trace := trace b @ ?es\<rparr>)"
    using assms(2) ADD_WORKER
    by (simp add: addWorkerSupervisor_def flushConnectionQueue_idle perform_def Let_def)
  moreover have "stateChanges ?es = []" "closes ?es = []" "receivers ?es = []"
    by (simp_all add: observed)
  ultimately show ?thesis by (intro exI [of _ "b\<lparr>ring := ring b @ [w], trace := trace b @ ?es\<rparr>"] exI [of _ ?es]) simp
next
  case (REMOVE_WORKER w)
  have "step ev b = Inr (b\<lparr>ring := remove1 w (ring b)\<rparr>)"
    using REMOVE_WORKER by (simp add: removeWorkerSupervisor_def)
  moreover have "stateChanges [] = []" "closes [] = []" "receivers [] = []"
    by (simp_all add: observed)
  ultimately show ?thesis by (intro exI [of _ "b\<lparr>ring := remove1 w (ring b)\<rparr>"] exI [of _ "[]"]) simp
qed (use assms(1) in simp_all)

lemma run_bystanders_since:
  assumes "list_all bystander evs" "state b \<noteq> Running"
  shows "\<exists>b' es. run evs b = Inr b' \<and> state b' = state b \<and> server b' = server b \<and>
           trace b' = trace b @ es \<and>
           stateChanges es = [] \<and> closes es = [] \<and> receivers es = []"
  using assms
proof (induction evs arbitrary: b)
  case Nil
  have "run [] b = Inr b \<and> state b = state b \<and> server b = server b \<and>
           trace b = trace b @ [] \<and>
           stateChanges [] = [] \<and> closes [] = [] \<and> receivers [] = []"
    by (simp add: observed)
  then show ?case by blast
next
  case (Cons ev evs)
  from Cons.prems have ev: "bystander ev" and evs: "list_all bystander evs" by simp_all
  from step_bystander_since [OF ev Cons.prems(2)] obtain b1 es1 where
    b1: "step ev b = Inr b1" "state b1 = state b" "server b1 = server b"
      "trace b1 = trace b @ es1"
      "stateChanges es1 = []" "closes es1 = []" "receivers es1 = []"
    by blast
  from b1(2) Cons.prems(2) have "state b1 \<noteq> Running" by simp
  from Cons.IH [OF evs this] obtain b' es2 where
    b': "run evs b1 = Inr b'" "state b' = state b1" "server b' = server b1"
      "trace b' = trace b1 @ es2"
      "stateChanges es2 = []" "closes es2 = []" "receivers es2 = []"
    by blast
  have "run (ev # evs) b = Inr b' \<and> state b' = state b \<and> server b' = server b \<and>
           trace b' = trace b @ (es1 @ es2) \<and>
           stateChanges (es1 @ es2) = [] \<and> closes (es1 @ es2) = [] \<and>
           receivers (es1 @ es2) = []"
    using b1 b' by (simp add: observed)
  then show ?case by blast
qed

text \<open>
  C7. \<^verbatim>\<open>stop\<close> is called on a load balancer in \<^verbatim>\<open>'starting'\<close> (its server exists): it enters
  \<^verbatim>\<open>'stopping'\<close> and the server has not been asked to close. Connections may arrive and
  worker supervisors may subscribe or leave; then at the \<^verbatim>\<open>'listening'\<close> event the server is
  asked to close, and the state stays \<^verbatim>\<open>'stopping'\<close>; the same may happen again, and the
  \<^verbatim>\<open>'close'\<close> event brings the load balancer to \<^verbatim>\<open>'standby'\<close>. From the call of \<^verbatim>\<open>stop\<close> on, the
  states announced are \<^verbatim>\<open>'stopping'\<close> and \<^verbatim>\<open>'standby'\<close>, the server was asked to close once,
  and no connection was handed to a worker supervisor. A new load balancer is in
  \<^verbatim>\<open>'starting'\<close> and has announced only that, so over its whole life the states announced
  are \<^verbatim>\<open>'starting'\<close>, \<^verbatim>\<open>'stopping'\<close>, \<^verbatim>\<open>'standby'\<close>, as the witness shows.
\<close>

theorem stop_during_starting:
  assumes "state b = Starting" "server b = Some sid"
    and "list_all bystander es1" "list_all bystander es2"
  shows "\<exists>b1 b2 b3 b4.
     stop cb b = Inr b1 \<and> state b1 = Stopping \<and> closes (since b b1) = [] \<and>
     run es1 b1 = Inr b2 \<and> state b2 = Stopping \<and> closes (since b b2) = [] \<and>
     step (LISTENING a) b2 = Inr b3 \<and> state b3 = Stopping \<and> closes (since b2 b3) = [sid] \<and>
     run (es2 @ [CLOSE]) b3 = Inr b4 \<and> state b4 = Standby \<and>
     run (STOP cb # es1 @ LISTENING a # es2 @ [CLOSE]) b = Inr b4 \<and>
     trace b4 = trace b @ since b b4 \<and>
     stateChanges (since b b4) = [Stopping, Standby] \<and>
     closes (since b b4) = [sid] \<and> receivers (since b b4) = []"
proof -
  let ?e1 = "[Emit Stopping, EmitStateChange Stopping]"
  from stop_starting [OF assms(1), of cb] obtain b1 where
    b1: "stop cb b = Inr b1" "state b1 = Stopping" "server b1 = server b"
      "trace b1 = trace b @ ?e1"
    by blast
  have "state b1 \<noteq> Running" using b1(2) by simp
  from run_bystanders_since [OF assms(3) this] obtain b2 e2 where
    b2: "run es1 b1 = Inr b2" "state b2 = state b1" "server b2 = server b1"
      "trace b2 = trace b1 @ e2"
      "stateChanges e2 = []" "closes e2 = []" "receivers e2 = []"
    by blast
  let ?e3 = "[Logger Warn ''supervisor shutting down server before confirmed to be listening'',
             ServerClose sid]"
  let ?b3 = "b2\<lparr>trace := trace b2 @ ?e3\<rparr>"
  have s2: "state b2 = Stopping" and v2: "server b2 = Some sid"
    using b2(2,3) b1(2,3) assms(2) by simp_all
  have l: "step (LISTENING a) b2 = Inr ?b3"
    using handleListening_stopping [OF s2 v2] by simp
  have s3: "state ?b3 = Stopping" using s2 by simp
  then have "state ?b3 \<noteq> Running" by simp
  from run_bystanders_since [OF assms(4) this] obtain b3' e4 where
    b3': "run es2 ?b3 = Inr b3'" "state b3' = state ?b3"
      "trace b3' = trace ?b3 @ e4"
      "stateChanges e4 = []" "closes e4 = []" "receivers e4 = []"
    by blast
  have "state b3' = Stopping" using b3'(2) s2 by simp
  from handleClose_stopping_since [OF this] obtain b4 e5 where
    b4: "handleClose b3' = Inr b4" "state b4 = Standby" "trace b4 = trace b3' @ e5"
      "stateChanges e5 = [Standby]" "closes e5 = []" "receivers e5 = []"
    by blast
  have r4: "run (es2 @ [CLOSE]) ?b3 = Inr b4"
    using b3'(1) b4(1) by (simp add: run_append)
  have r: "run (STOP cb # es1 @ LISTENING a # es2 @ [CLOSE]) b = Inr b4"
    using b1(1) b2(1) l r4 by (simp add: run_append)
  have i1: "since b b1 = ?e1" by (rule since_append) (simp add: b1(4))
  have i2: "since b b2 = ?e1 @ e2" by (rule since_append) (simp add: b1(4) b2(4))
  have i3: "since b2 ?b3 = ?e3" by (rule since_append) simp
  have t4: "trace b4 = trace b @ (?e1 @ e2 @ ?e3 @ e4 @ e5)"
    by (simp add: b4(3) b3'(3) b2(4) b1(4))
  then have i4: "since b b4 = ?e1 @ e2 @ ?e3 @ e4 @ e5" by (rule since_append)
  have c1: "closes (since b b1) = []" unfolding i1 by (simp add: observed)
  have c2: "closes (since b b2) = []" unfolding i2 by (simp add: observed b2(6))
  have c3: "closes (since b2 ?b3) = [sid]" unfolding i3 by (simp add: observed)
  have o4: "stateChanges (since b b4) = [Stopping, Standby]"
    "closes (since b b4) = [sid]" "receivers (since b b4) = []"
    unfolding i4 by (simp_all add: observed b2(5-7) b3'(4-6) b4(4-6))
  have p4: "trace b4 = trace b @ since b b4" unfolding i4 by (rule t4)
  show ?thesis
    using b1(1,2) c1 b2(1) s2 c2 l s3 c3 r4 b4(2) r p4 o4 by blast
qed

theorem stop_during_starting_witness:
  "state (RoundRobinLoadBalancer spec0) = Starting \<and>
   server (RoundRobinLoadBalancer spec0) = Some 0 \<and>
   stateChanges (trace (RoundRobinLoadBalancer spec0)) = [Starting] \<and>
   list_all bystander [CONNECTION 1, ADD_WORKER 5] \<and> list_all bystander [CONNECTION 2] \<and>
   (\<exists>b4. run (STOP (Some 3) # [CONNECTION 1, ADD_WORKER 5] @ LISTENING 7 # [CONNECTION 2] @ [CLOSE])
            (RoundRobinLoadBalancer spec0) = Inr b4 \<and>
      state b4 = Standby \<and> stateChanges (trace b4) = [Starting, Stopping, Standby] \<and>
      closes (since (RoundRobinLoadBalancer spec0) b4) = [0] \<and>
      receivers (since (RoundRobinLoadBalancer spec0) b4) = [])"
proof -
  let ?n = "RoundRobinLoadBalancer spec0"
  have n: "state ?n = Starting" "server ?n = Some 0" "stateChanges (trace ?n) = [Starting]"
    by (simp_all add: lb_defs observed)
  have a: "list_all bystander [CONNECTION 1, ADD_WORKER 5]" and b: "list_all bystander [CONNECTION 2]"
    by simp_all
  from stop_during_starting [OF n(1,2) a b, of "Some 3" 7]
  obtain b4 where b4:
    "run (STOP (Some 3) # [CONNECTION 1, ADD_WORKER 5] @ LISTENING 7 # [CONNECTION 2] @ [CLOSE]) ?n
       = Inr b4"
    "state b4 = Standby" "trace b4 = trace ?n @ since ?n b4"
    "stateChanges (since ?n b4) = [Stopping, Standby]"
    "closes (since ?n b4) = [0]" "receivers (since ?n b4) = []"
    by blast
  have "stateChanges (trace b4) = stateChanges (trace ?n) @ stateChanges (since ?n b4)"
    by (subst b4(3)) (simp only: observed_append)
  then have "stateChanges (trace b4) = [Starting, Stopping, Standby]"
    by (simp add: n(3) b4(4))
  then show ?thesis using n a b b4(1,2,5,6) by blast
qed

end
